theory Spec2Isabelle
  imports Main "HOL-Library.Word" "HOL-Library.List_Lexorder" "HOL-Library.Sublist"
begin

section \<open>JavaScript strings\<close>

text \<open>
  A JavaScript string is a sequence of 16-bit code units; \<open>length\<close>, \<open>split\<close>,
  \<open>trim\<close>, \<open>startsWith\<close>, \<open>includes\<close> (here \<open>stringIncludes\<close>) and the default order of \<open>sort\<close> all work
  on code units.  String literals of the source are written \<open>lit ''...''\<close>.
\<close>

type_synonym jsstring = "16 word list"

definition lit :: "string \<Rightarrow> jsstring" where
  "lit s = map (\<lambda>c. of_nat (of_char c)) s"

definition LF :: "16 word" where
  "LF = 0x0A"

definition CR :: "16 word" where
  "CR = 0x0D"

text \<open>
  \<open>content.split('\n')\<close>: the pieces between the separators, in order; a text without
  a separator (the empty text too) is one piece.  \<open>cur\<close> is the piece being read.
\<close>

fun splitFrom :: "jsstring \<Rightarrow> jsstring \<Rightarrow> jsstring list" where
  "splitFrom cur [] = [cur]"
| "splitFrom cur (c # cs) =
     (if c = LF then cur # splitFrom [] cs else splitFrom (cur @ [c]) cs)"

definition split :: "jsstring \<Rightarrow> jsstring list" where
  "split content = splitFrom [] content"

text \<open>
  \<open>String.prototype.trim\<close> removes, at both ends, the code units of the productions
  WhiteSpace and LineTerminator of ECMAScript: TAB, VT, FF, SP, NBSP, ZWNBSP, the
  Unicode space separators, and LF, CR, LS, PS.
\<close>

definition isWhiteSpace :: "16 word \<Rightarrow> bool" where
  "isWhiteSpace c \<longleftrightarrow>
     c = 0x09 \<or> c = 0x0A \<or> c = 0x0B \<or> c = 0x0C \<or> c = 0x0D \<or> c = 0x20 \<or>
     c = 0xA0 \<or> c = 0x1680 \<or> (0x2000 \<le> c \<and> c \<le> 0x200A) \<or>
     c = 0x2028 \<or> c = 0x2029 \<or> c = 0x202F \<or> c = 0x205F \<or> c = 0x3000 \<or>
     c = 0xFEFF"

definition trim :: "jsstring \<Rightarrow> jsstring" where
  "trim s = rev (dropWhile isWhiteSpace (rev (dropWhile isWhiteSpace s)))"

definition startsWith :: "jsstring \<Rightarrow> jsstring \<Rightarrow> bool" where
  "startsWith s p \<longleftrightarrow> take (length p) s = p"

definition endsWith :: "jsstring \<Rightarrow> jsstring \<Rightarrow> bool" where
  "endsWith s p \<longleftrightarrow> length p \<le> length s \<and> drop (length s - length p) s = p"

section \<open>JSON values\<close>

text \<open>
  What \<open>JSON.parse\<close> builds.  An object is the list of its own properties in the order
  the engine enumerates them.  Numbers are the integers (the doubles that an integer
  literal below \<open>2 ^ 53\<close> in magnitude denotes exactly); fractions, exponents and the
  rounding of doubles are outside the model.
\<close>

datatype json =
    JNull
  | JBool bool
  | JNum int
  | JStr jsstring
  | JArr "json list"
  | JObj "(jsstring \<times> json) list"

type_synonym jsobject = "(jsstring \<times> json) list"

section \<open>Values in conditions and as text\<close>

text \<open>
  A property read (\<open>log.level\<close>) gives the value of the own property or
  \<open>undefined\<close>, here \<open>None\<close>: none of the names read by the source is inherited from
  \<open>Object.prototype\<close>.
\<close>

definition get :: "jsobject \<Rightarrow> jsstring \<Rightarrow> json option" where
  "get obj key = map_of obj key"

text \<open>
  A value in a condition (ToBoolean): \<open>undefined\<close>, \<open>null\<close>, \<open>false\<close>, zero and the
  empty string are falsy; every array and object is truthy.
\<close>

fun truthy :: "json option \<Rightarrow> bool" where
  "truthy None = False"
| "truthy (Some JNull) = False"
| "truthy (Some (JBool b)) = b"
| "truthy (Some (JNum n)) = (n \<noteq> 0)"
| "truthy (Some (JStr s)) = (s \<noteq> [])"
| "truthy (Some (JArr xs)) = True"
| "truthy (Some (JObj ps)) = True"

text \<open>\<open>a || b\<close>: the left operand when it is truthy, the right one otherwise.\<close>

definition orElse :: "json option \<Rightarrow> json option \<Rightarrow> json option" where
  "orElse a b = (if truthy a then a else b)"

text \<open>The decimal digits of an integer, as \<open>Number.prototype.toString\<close> writes them.\<close>

fun digitsOf :: "nat \<Rightarrow> jsstring" where
  "digitsOf n =
     (if n < 10 then [0x30 + of_nat n]
      else digitsOf (n div 10) @ [0x30 + of_nat (n mod 10)])"

definition numberToString :: "int \<Rightarrow> jsstring" where
  "numberToString n = (if n < 0 then lit ''-'' @ digitsOf (nat (- n)) else digitsOf (nat n))"

datatype error = TypeError

text \<open>
  The method call \<open>v.toString()\<close>.  On a string, a number and a boolean it is the
  method of the wrapper's prototype.  On an array it is \<open>Array.prototype.toString\<close>, that
  is \<open>join\<close> with a comma, where \<open>null\<close> gives the empty text and every other element is
  converted in the same way.  On an object the property read finds an own property
  named \<open>toString\<close> first; a JSON value is never callable, so the call throws; without
  one it is \<open>Object.prototype.toString\<close>.  On \<open>null\<close> the property read itself throws.
\<close>

fun toStringJ :: "json \<Rightarrow> error + jsstring"
  and join :: "json list \<Rightarrow> error + jsstring" where
  "toStringJ JNull = Inl TypeError"
| "toStringJ (JBool b) = Inr (if b then lit ''true'' else lit ''false'')"
| "toStringJ (JNum n) = Inr (numberToString n)"
| "toStringJ (JStr s) = Inr s"
| "toStringJ (JArr xs) = join xs"
| "toStringJ (JObj ps) =
     (if map_of ps (lit ''toString'') = None then Inr (lit ''[object Object]'')
      else Inl TypeError)"
| "join [] = Inr []"
| "join [x] = (if x = JNull then Inr [] else toStringJ x)"
| "join (x # y # ys) =
     (case (if x = JNull then Inr [] else toStringJ x) of
        Inl e \<Rightarrow> Inl e
      | Inr a \<Rightarrow> (case join (y # ys) of
                   Inl e \<Rightarrow> Inl e
                 | Inr b \<Rightarrow> Inr (a @ lit '','' @ b)))"

fun toString :: "json option \<Rightarrow> error + jsstring" where
  "toString None = Inl TypeError"
| "toString (Some v) = toStringJ v"

text \<open>
  \<open>toUpperCase\<close> and \<open>toLowerCase\<close> on the ASCII letters; the case tables of Unicode
  for the other code units are outside the model, which leaves them as they are.
\<close>

definition toUpperCase :: "jsstring \<Rightarrow> jsstring" where
  "toUpperCase s = map (\<lambda>c. if 0x61 \<le> c \<and> c \<le> 0x7A then c - 0x20 else c) s"

definition toLowerCase :: "jsstring \<Rightarrow> jsstring" where
  "toLowerCase s = map (\<lambda>c. if 0x41 \<le> c \<and> c \<le> 0x5A then c + 0x20 else c) s"

text \<open>\<open>String.prototype.includes\<close>: the search text occurs somewhere in the text.\<close>

fun stringIncludes :: "jsstring \<Rightarrow> jsstring \<Rightarrow> bool" where
  "stringIncludes [] t = (t = [])"
| "stringIncludes (c # cs) t = (startsWith (c # cs) t \<or> stringIncludes cs t)"

section \<open>\<open>JSON.stringify\<close>\<close>

text \<open>
  QuoteJSONString: the two-character escapes, a backslash, \<open>u\<close> and four lower-case hexadecimal digits for the
  other control characters and for a surrogate that is not part of a pair, every other
  code unit as it is.
\<close>

definition hexDigit :: "16 word \<Rightarrow> 16 word" where
  "hexDigit d = (if d < 10 then 0x30 + d else 0x57 + d)"

definition unicodeEscape :: "16 word \<Rightarrow> jsstring" where
  "unicodeEscape c =
     [0x5C, 0x75, hexDigit (drop_bit 12 c), hexDigit (take_bit 4 (drop_bit 8 c)),
      hexDigit (take_bit 4 (drop_bit 4 c)), hexDigit (take_bit 4 c)]"

definition escapeUnit :: "16 word \<Rightarrow> jsstring" where
  "escapeUnit c =
     (if c = 0x08 then [0x5C, 0x62]
      else if c = 0x09 then [0x5C, 0x74]
      else if c = 0x0A then [0x5C, 0x6E]
      else if c = 0x0C then [0x5C, 0x66]
      else if c = 0x0D then [0x5C, 0x72]
      else if c = 0x22 then [0x5C, 0x22]
      else if c = 0x5C then [0x5C, 0x5C]
      else if c < 0x20 then unicodeEscape c
      else [c])"

definition isLeadingSurrogate :: "16 word \<Rightarrow> bool" where
  "isLeadingSurrogate c \<longleftrightarrow> 0xD800 \<le> c \<and> c \<le> 0xDBFF"

definition isTrailingSurrogate :: "16 word \<Rightarrow> bool" where
  "isTrailingSurrogate c \<longleftrightarrow> 0xDC00 \<le> c \<and> c \<le> 0xDFFF"

fun quoteUnits :: "jsstring \<Rightarrow> jsstring" where
  "quoteUnits [] = []"
| "quoteUnits [c] =
     (if isLeadingSurrogate c \<or> isTrailingSurrogate c then unicodeEscape c
      else escapeUnit c)"
| "quoteUnits (c # d # cs) =
     (if isLeadingSurrogate c then
        (if isTrailingSurrogate d then c # d # quoteUnits cs
         else unicodeEscape c @ quoteUnits (d # cs))
      else if isTrailingSurrogate c then unicodeEscape c @ quoteUnits (d # cs)
      else escapeUnit c @ quoteUnits (d # cs))"

definition quoteJSONString :: "jsstring \<Rightarrow> jsstring" where
  "quoteJSONString s = [0x22] @ quoteUnits s @ [0x22]"

text \<open>The pieces of a list with a comma between them.\<close>

fun commaSeparated :: "jsstring list \<Rightarrow> jsstring" where
  "commaSeparated [] = []"
| "commaSeparated [x] = x"
| "commaSeparated (x # y # ys) = x @ lit '','' @ commaSeparated (y # ys)"

text \<open>
  \<open>JSON.stringify\<close> of one argument, without indentation.  A value built by
  \<open>JSON.parse\<close> has no callable \<open>toJSON\<close>, no cycle and no \<open>undefined\<close>, so the text is
  always produced and no property is left out.
\<close>

fun stringify :: "json \<Rightarrow> jsstring" where
  "stringify JNull = lit ''null''"
| "stringify (JBool b) = (if b then lit ''true'' else lit ''false'')"
| "stringify (JNum n) = numberToString n"
| "stringify (JStr s) = quoteJSONString s"
| "stringify (JArr xs) = lit ''['' @ commaSeparated (map stringify xs) @ lit '']''"
| "stringify (JObj ps) =
     lit ''{'' @ commaSeparated (map (\<lambda>(k, v). quoteJSONString k @ lit '':'' @ stringify v) ps)
       @ lit ''}''"

section \<open>The extractor\<close>

text \<open>
  \<open>extractJsonObjects\<close> (source lines 16 to 37).  \<open>JSON.parse\<close> belongs to the
  platform: it is the parameter \<open>parse\<close>, \<open>None\<close> when it throws.  It is only called
  on a text whose first code unit is an opening brace, and such a text, when it parses,
  is an object: so \<open>parse\<close> returns the object's properties.
\<close>

record extraction =
  jsonObjects :: "jsobject list"
  ignoredLines :: nat

definition extractLine ::
  "(jsstring \<Rightarrow> jsobject option) \<Rightarrow> extraction \<Rightarrow> jsstring \<Rightarrow> extraction" where
  "extractLine parse acc line =
     (let trimmedLine = trim line in
      if startsWith trimmedLine (lit ''{'') \<and> endsWith trimmedLine (lit ''}'') then
        (case parse trimmedLine of
           Some jsonObj \<Rightarrow> acc\<lparr>jsonObjects := jsonObjects acc @ [jsonObj]\<rparr>
         | None \<Rightarrow> acc\<lparr>ignoredLines := ignoredLines acc + 1\<rparr>)
      else if length trimmedLine > 0 then acc\<lparr>ignoredLines := ignoredLines acc + 1\<rparr>
      else acc)"

definition extractJsonObjects ::
  "(jsstring \<Rightarrow> jsobject option) \<Rightarrow> jsstring \<Rightarrow> extraction" where
  "extractJsonObjects parse content =
     foldl (extractLine parse) \<lparr>jsonObjects = [], ignoredLines = 0\<rparr> (split content)"

section \<open>Levels\<close>

text \<open>\<open>levelHierarchy\<close> (source line 14).\<close>

definition levelHierarchy :: "jsstring list" where
  "levelHierarchy = [lit ''DEBUG'', lit ''INFO'', lit ''WARN'', lit ''ERROR'', lit ''FATAL'']"

text \<open>
  The expression \<open>log.level || log.severity || log.log_level || log.logLevel\<close> of
  source lines 42 and 72.
\<close>

definition levelField :: "jsobject \<Rightarrow> json option" where
  "levelField log =
     orElse (orElse (orElse (get log (lit ''level'')) (get log (lit ''severity'')))
       (get log (lit ''log_level''))) (get log (lit ''logLevel''))"

text \<open>\<open>getLogLevel\<close> (source lines 71 to 74).\<close>

definition getLogLevel :: "jsobject \<Rightarrow> error + jsstring" where
  "getLogLevel log =
     (let level = levelField log in
      if truthy level then
        (case toString level of Inl e \<Rightarrow> Inl e | Inr s \<Rightarrow> Inr (toUpperCase s))
      else Inr (lit ''UNKNOWN''))"

text \<open>
  \<open>extractLevels\<close> (source lines 39 to 48).  A \<open>Set\<close> keeps its elements in the order
  of their first insertion; \<open>sort\<close> without a comparison function orders strings by
  their code units.  An exception in the callback ends the loop.
\<close>

definition setAdd :: "jsstring list \<Rightarrow> jsstring \<Rightarrow> jsstring list" where
  "setAdd levels x = (if x \<in> set levels then levels else levels @ [x])"

fun collectLevels :: "jsstring list \<Rightarrow> jsobject list \<Rightarrow> error + jsstring list" where
  "collectLevels levels [] = Inr levels"
| "collectLevels levels (log # logs) =
     (let level = levelField log in
      if truthy level then
        (case toString level of
           Inl e \<Rightarrow> Inl e
         | Inr s \<Rightarrow> collectLevels (setAdd levels (toUpperCase s)) logs)
      else collectLevels levels logs)"

definition extractLevels :: "jsobject list \<Rightarrow> error + jsstring list" where
  "extractLevels logs =
     (case collectLevels [] logs of
        Inl e \<Rightarrow> Inl e
      | Inr levels \<Rightarrow> Inr (lit ''ALL'' # sort levels))"

section \<open>The filter\<close>

text \<open>\<open>Array.prototype.indexOf\<close>, \<open>None\<close> for -1.\<close>

fun indexOf :: "jsstring list \<Rightarrow> jsstring \<Rightarrow> nat option" where
  "indexOf [] x = None"
| "indexOf (y # ys) x = (if y = x then Some 0 else map_option Suc (indexOf ys x))"

text \<open>\<open>Array.prototype.filter\<close> with a callback that may throw.\<close>

fun filterE :: "('a \<Rightarrow> error + bool) \<Rightarrow> 'a list \<Rightarrow> error + 'a list" where
  "filterE p [] = Inr []"
| "filterE p (x # xs) =
     (case p x of
        Inl e \<Rightarrow> Inl e
      | Inr b \<Rightarrow> (case filterE p xs of
                   Inl e \<Rightarrow> Inl e
                 | Inr ys \<Rightarrow> Inr (if b then x # ys else ys)))"

text \<open>The first block of \<open>filterLogs\<close> (source lines 89 to 102).\<close>

definition byLevel :: "jsstring \<Rightarrow> jsobject list \<Rightarrow> error + jsobject list" where
  "byLevel level filtered =
     (if level \<noteq> lit ''ALL'' then
        (case indexOf levelHierarchy level of
           Some selectedIndex \<Rightarrow>
             (let allowedLevels = drop selectedIndex levelHierarchy in
              filterE (\<lambda>log. case getLogLevel log of
                                Inl e \<Rightarrow> Inl e
                              | Inr logLevel \<Rightarrow> Inr (logLevel \<in> set allowedLevels)) filtered)
         | None \<Rightarrow>
             filterE (\<lambda>log. case getLogLevel log of
                               Inl e \<Rightarrow> Inl e
                             | Inr logLevel \<Rightarrow> Inr (logLevel = level)) filtered)
      else Inr filtered)"

text \<open>The second block of \<open>filterLogs\<close> (source lines 104 to 108).\<close>

definition byTerm :: "jsstring \<Rightarrow> jsobject list \<Rightarrow> jsobject list" where
  "byTerm term filtered =
     (if term \<noteq> [] then
        filter (\<lambda>log. stringIncludes (toLowerCase (stringify (JObj log))) (toLowerCase term)) filtered
      else filtered)"

text \<open>
  The state variables of the component that the search and the level selector read and
  write.  A handler returns the exception that left it, if any, and the state after
  it.
\<close>

record state =
  logs :: "jsobject list"
  filteredLogs :: "jsobject list"
  searchTerm :: jsstring
  selectedLevel :: jsstring

text \<open>\<open>filterLogs\<close> (source lines 86 to 111).\<close>

definition filterLogs :: "state \<Rightarrow> jsstring \<Rightarrow> jsstring \<Rightarrow> error option \<times> state" where
  "filterLogs st term level =
     (case byLevel level (logs st) of
        Inl e \<Rightarrow> (Some e, st)
      | Inr filtered \<Rightarrow> (None, st\<lparr>filteredLogs := byTerm term filtered\<rparr>))"

text \<open>\<open>handleSearch\<close> and \<open>handleLevelFilter\<close> (source lines 76 to 84).\<close>

definition handleSearch :: "state \<Rightarrow> jsstring \<Rightarrow> error option \<times> state" where
  "handleSearch st term = filterLogs (st\<lparr>searchTerm := term\<rparr>) term (selectedLevel st)"

definition handleLevelFilter :: "state \<Rightarrow> jsstring \<Rightarrow> error option \<times> state" where
  "handleLevelFilter st level = filterLogs (st\<lparr>selectedLevel := level\<rparr>) (searchTerm st) level"

section \<open>Notions of the specification\<close>

text \<open>
  The spec's count of non-blank lines: the lines of the text that are not empty once
  trimmed.
\<close>

definition nonBlankLineCount :: "jsstring \<Rightarrow> nat" where
  "nonBlankLineCount content = length (filter (\<lambda>line. trim line \<noteq> []) (split content))"

text \<open>The four field names that carry a level, in the order of their priority.\<close>

definition levelFieldNames :: "jsstring list" where
  "levelFieldNames = [lit ''level'', lit ''severity'', lit ''log_level'', lit ''logLevel'']"

text \<open>A record has a level when one of the four fields has a truthy value.\<close>

definition hasLevel :: "jsobject \<Rightarrow> bool" where
  "hasLevel r = truthy (levelField r)"

text \<open>The labels that \<open>getLogLevel\<close> gives for the records of a list, in their order.\<close>

definition resolvedLabels :: "jsobject list \<Rightarrow> jsstring list" where
  "resolvedLabels rs =
     concat (map (\<lambda>r. case getLogLevel r of Inl e \<Rightarrow> [] | Inr label \<Rightarrow> [label]) rs)"

text \<open>
  The spec's severity floor: the label of the record is found in the hierarchy, at
  position \<open>i\<close> or after it.
\<close>

definition passesFloor :: "nat \<Rightarrow> jsobject \<Rightarrow> bool" where
  "passesFloor i r =
     (case getLogLevel r of
        Inl e \<Rightarrow> False
      | Inr label \<Rightarrow> (case indexOf levelHierarchy label of None \<Rightarrow> False | Some j \<Rightarrow> i \<le> j))"

text \<open>The text with every line feed replaced by carriage return, line feed.\<close>

definition crlf :: "jsstring \<Rightarrow> jsstring" where
  "crlf content = concat (map (\<lambda>c. if c = LF then [CR, LF] else [c]) content)"

text \<open>
  A stand-in for \<open>JSON.parse\<close> on the texts of the examples: it knows the empty object
  and one record, and rejects everything else.
\<close>

definition sampleParse :: "jsstring \<Rightarrow> jsobject option" where
  "sampleParse s =
     (if s = lit ''{}'' then Some []
      else if s = lit ''{\"level\":\"INFO\"}'' then Some [(lit ''level'', JStr (lit ''INFO''))]
      else None)"

section \<open>Properties of the extractor\<close>

lemma candidate_nonblank: "startsWith t (lit ''{'') \<Longrightarrow> t \<noteq> []"
  by (auto simp: startsWith_def lit_def)

lemma extractLine_count:
  "length (jsonObjects (extractLine parse acc line)) + ignoredLines (extractLine parse acc line) =
   length (jsonObjects acc) + ignoredLines acc + (if trim line = [] then 0 else 1)"
  by (auto simp: extractLine_def Let_def dest: candidate_nonblank split: option.splits)

lemma foldl_extractLine_count:
  "length (jsonObjects (foldl (extractLine parse) acc ls)) +
     ignoredLines (foldl (extractLine parse) acc ls) =
   length (jsonObjects acc) + ignoredLines acc + length (filter (\<lambda>line. trim line \<noteq> []) ls)"
proof (induction ls arbitrary: acc)
  case Nil
  show ?case by simp
next
  case (Cons l ls)
  show ?case
    using Cons.IH [of "extractLine parse acc l"] extractLine_count [of parse acc l]
    by simp
qed

lemma splitFrom_append:
  "splitFrom cur (a @ LF # b) = splitFrom cur a @ splitFrom [] b"
  by (induction a arbitrary: cur) simp_all

text \<open>One line adds to the result so far what it adds to the empty result.\<close>

lemma extractLine_shift:
  "extractLine parse acc line =
     \<lparr>jsonObjects = jsonObjects acc @
        jsonObjects (extractLine parse \<lparr>jsonObjects = [], ignoredLines = 0\<rparr> line),
      ignoredLines = ignoredLines acc +
        ignoredLines (extractLine parse \<lparr>jsonObjects = [], ignoredLines = 0\<rparr> line)\<rparr>"
  by (simp add: extractLine_def Let_def split: option.splits)

lemma foldl_extractLine_shift:
  "foldl (extractLine parse) acc ls =
     \<lparr>jsonObjects = jsonObjects acc @
        jsonObjects (foldl (extractLine parse) \<lparr>jsonObjects = [], ignoredLines = 0\<rparr> ls),
      ignoredLines = ignoredLines acc +
        ignoredLines (foldl (extractLine parse) \<lparr>jsonObjects = [], ignoredLines = 0\<rparr> ls)\<rparr>"
proof (induction ls arbitrary: acc)
  case Nil
  show ?case by simp
next
  case (Cons l ls)
  let ?e = "\<lparr>jsonObjects = [], ignoredLines = 0\<rparr>"
  have a: "foldl (extractLine parse) acc (l # ls) =
      \<lparr>jsonObjects = jsonObjects (extractLine parse acc l) @
         jsonObjects (foldl (extractLine parse) ?e ls),
       ignoredLines = ignoredLines (extractLine parse acc l) +
         ignoredLines (foldl (extractLine parse) ?e ls)\<rparr>"
    using Cons.IH [of "extractLine parse acc l"] by simp
  have b: "foldl (extractLine parse) ?e (l # ls) =
      \<lparr>jsonObjects = jsonObjects (extractLine parse ?e l) @
         jsonObjects (foldl (extractLine parse) ?e ls),
       ignoredLines = ignoredLines (extractLine parse ?e l) +
         ignoredLines (foldl (extractLine parse) ?e ls)\<rparr>"
    using Cons.IH [of "extractLine parse ?e l"] by simp
  have c: "jsonObjects (extractLine parse acc l) =
      jsonObjects acc @ jsonObjects (extractLine parse ?e l)"
    and d: "ignoredLines (extractLine parse acc l) =
      ignoredLines acc + ignoredLines (extractLine parse ?e l)"
    using extractLine_shift [of parse acc l]
    by (metis extraction.select_convs(1), metis extraction.select_convs(2))
  show ?case unfolding a b c d by simp
qed

lemma extract_line_feed:
  "extractJsonObjects parse (a @ LF # b) =
     \<lparr>jsonObjects = jsonObjects (extractJsonObjects parse a) @
        jsonObjects (extractJsonObjects parse b),
      ignoredLines = ignoredLines (extractJsonObjects parse a) +
        ignoredLines (extractJsonObjects parse b)\<rparr>"
  unfolding extractJsonObjects_def split_def splitFrom_append foldl_append
  by (subst foldl_extractLine_shift) simp

lemmas extract_simps =
  extractJsonObjects_def split_def lit_def LF_def CR_def extractLine_def trim_def
  isWhiteSpace_def startsWith_def endsWith_def sampleParse_def

lemma isWhiteSpace_CR: "isWhiteSpace CR"
  by (simp add: isWhiteSpace_def CR_def)

lemma trim_snoc_CR: "trim (l @ [CR]) = trim l"
proof (cases "\<forall>c\<in>set l. isWhiteSpace c")
  case True
  then have "\<forall>c\<in>set (l @ [CR]). isWhiteSpace c"
    by (simp add: isWhiteSpace_CR)
  with True have "dropWhile isWhiteSpace (l @ [CR]) = []" and "dropWhile isWhiteSpace l = []"
    by (simp_all only: dropWhile_eq_Nil_conv)
  then show ?thesis by (simp only: trim_def)
next
  case False
  then obtain x where "x \<in> set l" and "\<not> isWhiteSpace x"
    by blast
  then have "dropWhile isWhiteSpace (l @ [CR]) = dropWhile isWhiteSpace l @ [CR]"
    by (rule dropWhile_append1)
  then show ?thesis by (simp add: trim_def isWhiteSpace_CR)
qed

lemma extractLine_trim_cong:
  "trim l = trim l' \<Longrightarrow> extractLine parse acc l = extractLine parse acc l'"
  by (simp add: extractLine_def)

lemma foldl_extractLine_trim_cong:
  "map trim ls = map trim ls' \<Longrightarrow>
   foldl (extractLine parse) acc ls = foldl (extractLine parse) acc ls'"
proof (induction ls arbitrary: ls' acc)
  case Nil
  then show ?case by simp
next
  case (Cons l ls)
  then obtain l' ms where ls': "ls' = l' # ms" and t: "trim l = trim l'"
    and m: "map trim ls = map trim ms"
    by (cases ls') auto
  show ?case
    using Cons.IH [OF m] extractLine_trim_cong [OF t] by (simp add: ls')
qed

text \<open>The lines of the text with Windows line endings are the same once trimmed.\<close>

lemma splitFrom_crlf:
  "map trim (splitFrom cur (crlf s)) = map trim (splitFrom cur s)"
proof (induction s arbitrary: cur)
  case Nil
  show ?case by (simp add: crlf_def)
next
  case (Cons c s)
  show ?case
  proof (cases "c = LF")
    case True
    have "CR \<noteq> LF" by (simp add: CR_def LF_def)
    moreover have "crlf (LF # s) = CR # LF # crlf s"
      by (simp add: crlf_def)
    ultimately have "splitFrom cur (crlf (c # s)) = (cur @ [CR]) # splitFrom [] (crlf s)"
      using True by simp
    then show ?thesis using Cons.IH [of "[]"] True by (simp add: trim_snoc_CR)
  next
    case False
    then have "crlf (c # s) = c # crlf s"
      by (simp add: crlf_def)
    then show ?thesis using False Cons.IH [of "cur @ [c]"] by simp
  qed
qed

text \<open>
  C7.  Whatever \<open>JSON.parse\<close> does with a candidate, the number of records and the
  number of ignored lines add up to the number of lines that are not blank once
  trimmed: one line adds exactly one to the sum when it is not blank and nothing when it
  is, so that every non-blank line is a record or an ignored line and never both.  The
  empty text gives no record and no ignored line.
\<close>

theorem extract_counts_nonblank_lines:
  "length (jsonObjects (extractJsonObjects parse content)) +
     ignoredLines (extractJsonObjects parse content) = nonBlankLineCount content
   \<and> length (jsonObjects (extractLine parse acc line)) +
       ignoredLines (extractLine parse acc line) =
     length (jsonObjects acc) + ignoredLines acc + (if trim line = [] then 0 else 1)
   \<and> extractJsonObjects parse [] = \<lparr>jsonObjects = [], ignoredLines = 0\<rparr>"
proof (intro conjI)
  show "length (jsonObjects (extractJsonObjects parse content)) +
     ignoredLines (extractJsonObjects parse content) = nonBlankLineCount content"
    unfolding extractJsonObjects_def nonBlankLineCount_def
    by (simp add: foldl_extractLine_count)
  show "length (jsonObjects (extractLine parse acc line)) +
       ignoredLines (extractLine parse acc line) =
     length (jsonObjects acc) + ignoredLines acc + (if trim line = [] then 0 else 1)"
    by (rule extractLine_count)
  show "extractJsonObjects parse [] = \<lparr>jsonObjects = [], ignoredLines = 0\<rparr>"
    by (simp add: extractJsonObjects_def split_def extractLine_def trim_def startsWith_def
        lit_def)
qed

theorem extract_counts_nonblank_lines_witness:
  "length (jsonObjects (extractJsonObjects sampleParse
      (lit ''{\"level\":\"INFO\"}\<newline>not json\<newline>{bad json}\<newline>\<newline>{}''))) +
   ignoredLines (extractJsonObjects sampleParse
      (lit ''{\"level\":\"INFO\"}\<newline>not json\<newline>{bad json}\<newline>\<newline>{}'')) = 4"
proof -
  have "nonBlankLineCount
      (lit ''{\"level\":\"INFO\"}\<newline>not json\<newline>{bad json}\<newline>\<newline>{}'') = 4"
    by (simp add: nonBlankLineCount_def split_def lit_def LF_def trim_def isWhiteSpace_def)
  then show ?thesis
    using extract_counts_nonblank_lines [of sampleParse
        "lit ''{\"level\":\"INFO\"}\<newline>not json\<newline>{bad json}\<newline>\<newline>{}''"]
    by (simp only:)
qed

text \<open>
  C2, as the spec states it, fails: the three lines of the pretty-printed object are
  three ignored lines, not two.
\<close>

theorem extract_pretty_printed_counterexample:
  "extractJsonObjects sampleParse (lit ''{\<newline>\"a\":1\<newline>}'') \<noteq>
     \<lparr>jsonObjects = [], ignoredLines = 2\<rparr>"
  by (simp add: extract_simps)

text \<open>
  C2, amended.  Lines are never merged: the result for two texts joined by a line feed
  is the records of the first followed by the records of the second, and the sum of the
  two counts of ignored lines.  The three-line text of an opening brace, \<open>"a":1\<close> and
  a closing brace gives no record and three ignored lines, whatever the parser.
\<close>

theorem extract_never_merges_lines:
  "extractJsonObjects parse (a @ LF # b) =
     \<lparr>jsonObjects = jsonObjects (extractJsonObjects parse a) @
        jsonObjects (extractJsonObjects parse b),
      ignoredLines = ignoredLines (extractJsonObjects parse a) +
        ignoredLines (extractJsonObjects parse b)\<rparr>
   \<and> extractJsonObjects parse (lit ''{\<newline>\"a\":1\<newline>}'') =
       \<lparr>jsonObjects = [], ignoredLines = 3\<rparr>"
proof
  show "extractJsonObjects parse (a @ LF # b) =
     \<lparr>jsonObjects = jsonObjects (extractJsonObjects parse a) @
        jsonObjects (extractJsonObjects parse b),
      ignoredLines = ignoredLines (extractJsonObjects parse a) +
        ignoredLines (extractJsonObjects parse b)\<rparr>"
    by (rule extract_line_feed)
  show "extractJsonObjects parse (lit ''{\<newline>\"a\":1\<newline>}'') =
       \<lparr>jsonObjects = [], ignoredLines = 3\<rparr>"
    by (simp add: extractJsonObjects_def split_def lit_def LF_def extractLine_def trim_def
        isWhiteSpace_def startsWith_def endsWith_def)
qed

theorem extract_never_merges_lines_witness:
  "extractJsonObjects sampleParse (lit ''{}\<newline>{\<newline>}'') =
     \<lparr>jsonObjects = [[]], ignoredLines = 2\<rparr>"
proof -
  have a: "extractJsonObjects sampleParse (lit ''{}'') = \<lparr>jsonObjects = [[]], ignoredLines = 0\<rparr>"
    by (simp add: extract_simps)
  have b: "extractJsonObjects sampleParse (lit ''{\<newline>}'') = \<lparr>jsonObjects = [], ignoredLines = 2\<rparr>"
    by (simp add: extract_simps)
  have c: "lit ''{}\<newline>{\<newline>}'' = lit ''{}'' @ LF # lit ''{\<newline>}''"
    by (simp add: lit_def LF_def)
  show ?thesis
    using extract_never_merges_lines [of sampleParse "lit ''{}''" "lit ''{\<newline>}''"]
    by (simp only: a b c extraction.simps append.simps add_0)
qed

text \<open>
  C10.  For a text without carriage returns, replacing every line feed by carriage
  return and line feed changes neither the records, nor their order, nor the count of
  ignored lines: the carriage return left at the end of a line is removed by \<open>trim\<close>
  before the line is looked at.
\<close>

theorem extract_windows_line_endings:
  "CR \<notin> set content \<Longrightarrow>
   extractJsonObjects parse (crlf content) = extractJsonObjects parse content"
proof -
  have "map trim (split (crlf content)) = map trim (split content)"
    unfolding split_def by (rule splitFrom_crlf)
  then show ?thesis
    unfolding extractJsonObjects_def by (rule foldl_extractLine_trim_cong)
qed

theorem extract_windows_line_endings_witness:
  "CR \<notin> set (lit ''{\"level\":\"INFO\"}\<newline>not json\<newline>{bad json}\<newline>\<newline>{}'')
   \<and> crlf (lit ''{}\<newline>x'') = [0x7B, 0x7D, 0x0D, 0x0A, 0x78]
   \<and> extractJsonObjects sampleParse
       (crlf (lit ''{\"level\":\"INFO\"}\<newline>not json\<newline>{bad json}\<newline>\<newline>{}'')) =
     \<lparr>jsonObjects = [[(lit ''level'', JStr (lit ''INFO''))], []], ignoredLines = 2\<rparr>"
proof -
  have h: "CR \<notin> set (lit ''{\"level\":\"INFO\"}\<newline>not json\<newline>{bad json}\<newline>\<newline>{}'')"
    by (simp add: lit_def CR_def)
  have c: "crlf (lit ''{}\<newline>x'') = [0x7B, 0x7D, 0x0D, 0x0A, 0x78]"
    by (simp add: crlf_def lit_def LF_def CR_def)
  have e: "extractJsonObjects sampleParse
       (lit ''{\"level\":\"INFO\"}\<newline>not json\<newline>{bad json}\<newline>\<newline>{}'') =
     \<lparr>jsonObjects = [[(lit ''level'', JStr (lit ''INFO''))], []], ignoredLines = 2\<rparr>"
    by (simp add: extract_simps)
  show ?thesis
    using h c e extract_windows_line_endings [OF h, of sampleParse]
    by (simp only: simp_thms)
qed

section \<open>Properties of the level resolver and of the catalog\<close>

lemmas level_simps =
  getLogLevel_def levelField_def orElse_def get_def lit_def toUpperCase_def Let_def

lemma levelField_find:
  "find truthy (map (get r) levelFieldNames) =
     (if truthy (levelField r) then Some (levelField r) else None)"
  by (simp add: levelFieldNames_def levelField_def orElse_def)

lemma getLogLevel_hasLevel:
  "getLogLevel r =
     (if hasLevel r then
        (case toString (levelField r) of Inl e \<Rightarrow> Inl e | Inr s \<Rightarrow> Inr (toUpperCase s))
      else Inr (lit ''UNKNOWN''))"
  by (simp add: getLogLevel_def hasLevel_def Let_def)

lemma error_cases: "(x :: error + 'a) \<noteq> Inl TypeError \<longleftrightarrow> (\<exists>y. x = Inr y)"
  by (cases x) (auto intro: error.exhaust)

text \<open>
  C3, as the spec states it, fails: a level of 0 is present and, by the claim, would be
  taken and give the label 0; the source passes over it and takes the severity.
\<close>

theorem getLogLevel_zero_level_counterexample:
  "toString (Some (JNum 0)) = Inr (lit ''0'')
   \<and> getLogLevel [(lit ''level'', JNum 0), (lit ''severity'', JStr (lit ''warn''))] =
       Inr (lit ''WARN'')
   \<and> getLogLevel [(lit ''level'', JNum 0), (lit ''severity'', JStr (lit ''warn''))] \<noteq>
       Inr (toUpperCase (lit ''0''))"
  by (simp add: level_simps numberToString_def)

text \<open>
  C3, amended.  \<open>getLogLevel\<close> reads the fields level, severity, log_level, logLevel in
  that order; the first of them whose value is truthy (present and none of \<open>null\<close>,
  \<open>false\<close>, 0 and the empty string) is converted to text by its \<open>toString\<close> and
  upper-cased; when none of the four has a truthy value the result is UNKNOWN.  The
  three examples of the spec hold.
\<close>

theorem getLogLevel_first_truthy_field:
  "getLogLevel r =
     (case find truthy (map (get r) levelFieldNames) of
        None \<Rightarrow> Inr (lit ''UNKNOWN'')
      | Some v \<Rightarrow> (case toString v of Inl e \<Rightarrow> Inl e | Inr s \<Rightarrow> Inr (toUpperCase s)))
   \<and> getLogLevel [(lit ''severity'', JStr (lit ''warn''))] = Inr (lit ''WARN'')
   \<and> getLogLevel [] = Inr (lit ''UNKNOWN'')
   \<and> getLogLevel [(lit ''level'', JStr (lit ''INFO'')), (lit ''severity'', JStr (lit ''ERROR''))] =
       Inr (lit ''INFO'')"
proof (intro conjI)
  show "getLogLevel r =
     (case find truthy (map (get r) levelFieldNames) of
        None \<Rightarrow> Inr (lit ''UNKNOWN'')
      | Some v \<Rightarrow> (case toString v of Inl e \<Rightarrow> Inl e | Inr s \<Rightarrow> Inr (toUpperCase s)))"
    by (simp add: levelField_find getLogLevel_def Let_def)
qed (simp_all add: level_simps)

theorem getLogLevel_first_truthy_field_witness:
  "getLogLevel [(lit ''level'', JNull), (lit ''severity'', JStr []),
      (lit ''log_level'', JArr [JNum 12, JNull, JStr (lit ''x'')]), (lit ''logLevel'', JStr (lit ''info''))] =
     Inr (lit ''12,,X'')"
  using getLogLevel_first_truthy_field
    [of "[(lit ''level'', JNull), (lit ''severity'', JStr []),
      (lit ''log_level'', JArr [JNum 12, JNull, JStr (lit ''x'')]), (lit ''logLevel'', JStr (lit ''info''))]"]
  by (simp add: levelFieldNames_def get_def lit_def toUpperCase_def numberToString_def)

lemma collectLevels_step:
  "collectLevels levels (r # rs) =
     (if hasLevel r then
        (case getLogLevel r of
           Inl e \<Rightarrow> Inl e
         | Inr label \<Rightarrow> collectLevels (setAdd levels label) rs)
      else collectLevels levels rs)"
  by (simp add: getLogLevel_hasLevel Let_def hasLevel_def split: sum.splits)

lemma collectLevels_throws:
  "\<exists>r\<in>set rs. getLogLevel r = Inl TypeError \<Longrightarrow> collectLevels levels rs = Inl TypeError"
proof (induction rs arbitrary: levels)
  case Nil
  then show ?case by simp
next
  case (Cons r rs)
  show ?case
  proof (cases "getLogLevel r")
    case (Inl e)
    then have "hasLevel r" by (simp add: getLogLevel_hasLevel split: if_splits)
    with Inl show ?thesis
      by (cases e) (simp add: collectLevels_step del: collectLevels.simps)
  next
    case (Inr label)
    with Cons.prems have "\<exists>r\<in>set rs. getLogLevel r = Inl TypeError" by auto
    then show ?thesis using Inr
      by (simp add: collectLevels_step Cons.IH del: collectLevels.simps)
  qed
qed

lemma collectLevels_returns:
  "\<forall>r\<in>set rs. getLogLevel r \<noteq> Inl TypeError \<Longrightarrow>
   \<exists>out. collectLevels levels rs = Inr out \<and>
     set out = set levels \<union> set (resolvedLabels (filter hasLevel rs)) \<and>
     (distinct levels \<longrightarrow> distinct out)"
proof (induction rs arbitrary: levels)
  case Nil
  show ?case by (simp add: resolvedLabels_def)
next
  case (Cons r rs)
  from Cons.prems obtain label where l: "getLogLevel r = Inr label"
    by (auto simp: error_cases)
  from Cons.prems have rest: "\<forall>r\<in>set rs. getLogLevel r \<noteq> Inl TypeError" by simp
  show ?case
  proof (cases "hasLevel r")
    case True
    from Cons.IH [OF rest, of "setAdd levels label"] obtain out where
      "collectLevels (setAdd levels label) rs = Inr out"
      "set out = set (setAdd levels label) \<union> set (resolvedLabels (filter hasLevel rs))"
      "distinct (setAdd levels label) \<longrightarrow> distinct out" by blast
    moreover have "set (setAdd levels label) = insert label (set levels)"
      and "distinct levels \<longrightarrow> distinct (setAdd levels label)"
      by (auto simp: setAdd_def)
    ultimately show ?thesis using True l
      by (auto simp: collectLevels_step resolvedLabels_def simp del: collectLevels.simps)
  next
    case False
    with Cons.IH [OF rest, of levels] show ?thesis
      by (simp add: collectLevels_step del: collectLevels.simps)
  qed
qed

lemma extractLevels_sorted_labels:
  "extractLevels rs =
     (if \<forall>r\<in>set rs. getLogLevel r \<noteq> Inl TypeError
      then Inr (lit ''ALL'' # sort (remdups (resolvedLabels (filter hasLevel rs))))
      else Inl TypeError)"
proof (cases "\<forall>r\<in>set rs. getLogLevel r \<noteq> Inl TypeError")
  case True
  from collectLevels_returns [OF True, of "[]"] obtain out where
    c: "collectLevels [] rs = Inr out"
    and s: "set out = set (resolvedLabels (filter hasLevel rs))"
    and d: "distinct out" by auto
  have "sort out = sort (remdups (resolvedLabels (filter hasLevel rs)))"
    by (rule sorted_distinct_set_unique) (simp_all add: s d)
  with c True show ?thesis by (simp add: extractLevels_def)
next
  case False
  then have "collectLevels [] rs = Inl TypeError"
    by (intro collectLevels_throws) simp
  with False show ?thesis by (simp add: extractLevels_def)
qed

text \<open>
  C1, as the spec states it, fails: a record without a level resolves to UNKNOWN, and
  the catalog of that record alone is ALL and nothing else.
\<close>

theorem extractLevels_unknown_counterexample:
  "getLogLevel [] = Inr (lit ''UNKNOWN'')
   \<and> extractLevels [[]] = Inr [lit ''ALL'']
   \<and> extractLevels [[]] \<noteq> Inr (lit ''ALL'' # sort (remdups (resolvedLabels [[]])))"
  by (simp add: extractLevels_def resolvedLabels_def level_simps)

text \<open>
  A defect of the source, apart from C1's correction: the \<open>Set\<close> keeps the labels of
  the records distinct, but ALL is put in front of them without a look at the set.  A
  record whose level is the text all has the label ALL, and the catalog then holds ALL
  twice.
\<close>

lemma extractLevels_all_twice:
  "extractLevels [[(lit ''level'', JStr (lit ''all''))]] = Inr [lit ''ALL'', lit ''ALL'']"
  by (simp add: extractLevels_def level_simps setAdd_def)

lemma resolvedLabels_member:
  "label \<in> set (resolvedLabels rs) \<longleftrightarrow> (\<exists>r\<in>set rs. getLogLevel r = Inr label)"
proof (induction rs)
  case Nil
  show ?case by (simp add: resolvedLabels_def)
next
  case (Cons r rs)
  have "resolvedLabels (r # rs) =
      (case getLogLevel r of Inl e \<Rightarrow> [] | Inr l \<Rightarrow> [l]) @ resolvedLabels rs"
    by (simp add: resolvedLabels_def)
  then show ?case
    using Cons.IH by (cases "getLogLevel r") auto
qed

text \<open>
  C1, amended.  For every sequence of records in which the level of each record can be
  converted to text and no record has the label ALL, the catalog is ALL followed by the
  distinct labels that \<open>getLogLevel\<close> gives for the records that have a level (a truthy
  value in one of the four fields), sorted by code units; records without one, which
  \<open>getLogLevel\<close> resolves to UNKNOWN, add nothing.  The result begins with ALL and
  holds no label twice.
\<close>

theorem extractLevels_catalog:
  "\<forall>r\<in>set rs. getLogLevel r \<noteq> Inl TypeError \<and> getLogLevel r \<noteq> Inr (lit ''ALL'') \<Longrightarrow>
   extractLevels rs =
     Inr (lit ''ALL'' # sort (remdups (resolvedLabels (filter hasLevel rs))))
   \<and> (extractLevels rs = Inr out \<longrightarrow> hd out = lit ''ALL'' \<and> distinct out)"
proof
  assume h: "\<forall>r\<in>set rs. getLogLevel r \<noteq> Inl TypeError \<and> getLogLevel r \<noteq> Inr (lit ''ALL'')"
  then have ok: "\<forall>r\<in>set rs. getLogLevel r \<noteq> Inl TypeError"
    by simp
  show e: "extractLevels rs =
     Inr (lit ''ALL'' # sort (remdups (resolvedLabels (filter hasLevel rs))))"
    using ok by (simp add: extractLevels_sorted_labels)
  have "lit ''ALL'' \<notin> set (resolvedLabels (filter hasLevel rs))"
    using h by (auto simp: resolvedLabels_member)
  then have "distinct (lit ''ALL'' # sort (remdups (resolvedLabels (filter hasLevel rs))))"
    by simp
  then show "extractLevels rs = Inr out \<longrightarrow> hd out = lit ''ALL'' \<and> distinct out"
    unfolding e by auto
qed

theorem extractLevels_catalog_witness:
  "extractLevels [[], [(lit ''level'', JStr (lit ''warn''))],
      [(lit ''severity'', JStr (lit ''Info''))], [(lit ''level'', JStr (lit ''WARN''))],
      [(lit ''level'', JStr (lit ''Success''))], [(lit ''level'', JStr (lit ''unknown''))]] =
     Inr [lit ''ALL'', lit ''INFO'', lit ''SUCCESS'', lit ''UNKNOWN'', lit ''WARN'']
   \<and> hd [lit ''ALL'', lit ''INFO'', lit ''SUCCESS'', lit ''UNKNOWN'', lit ''WARN''] = lit ''ALL''
   \<and> distinct [lit ''ALL'', lit ''INFO'', lit ''SUCCESS'', lit ''UNKNOWN'', lit ''WARN'']"
proof -
  let ?rs = "[[], [(lit ''level'', JStr (lit ''warn''))],
      [(lit ''severity'', JStr (lit ''Info''))], [(lit ''level'', JStr (lit ''WARN''))],
      [(lit ''level'', JStr (lit ''Success''))], [(lit ''level'', JStr (lit ''unknown''))]]"
  let ?out = "[lit ''ALL'', lit ''INFO'', lit ''SUCCESS'', lit ''UNKNOWN'', lit ''WARN'']"
  have h: "\<forall>r\<in>set ?rs. getLogLevel r \<noteq> Inl TypeError \<and> getLogLevel r \<noteq> Inr (lit ''ALL'')"
    by (simp add: level_simps)
  have a: "extractLevels ?rs = Inr ?out"
    using extractLevels_catalog [OF h]
    by (simp add: resolvedLabels_def hasLevel_def level_simps)
  have "hd ?out = lit ''ALL'' \<and> distinct ?out"
    using extractLevels_catalog [OF h, where out = ?out] a by blast
  with a show ?thesis by (simp only: simp_thms)
qed

section \<open>Properties of the filter\<close>

text \<open>
  \<open>filterE\<close> is \<open>filter\<close> with the callback's verdicts when no callback throws, and the
  exception otherwise.
\<close>

lemma filterE_filter:
  "filterE p xs =
     (if \<forall>x\<in>set xs. p x \<noteq> Inl TypeError then Inr (filter (\<lambda>x. p x = Inr True) xs)
      else Inl TypeError)"
proof (induction xs)
  case Nil
  show ?case by simp
next
  case (Cons x xs)
  show ?case
  proof (cases "p x")
    case (Inl e)
    then show ?thesis by (cases e) simp
  next
    case (Inr b)
    then show ?thesis by (simp add: Cons.IH)
  qed
qed

text \<open>In a list without repetition, the elements from position \<open>i\<close> on are those whose
  index is at least \<open>i\<close>.\<close>

lemma indexOf_drop:
  "distinct xs \<Longrightarrow>
   x \<in> set (drop i xs) \<longleftrightarrow> (case indexOf xs x of None \<Rightarrow> False | Some j \<Rightarrow> i \<le> j)"
proof (induction xs arbitrary: i)
  case Nil
  show ?case by simp
next
  case (Cons y ys)
  show ?case
  proof (cases i)
    case 0
    have "x \<in> set ys \<longleftrightarrow> indexOf ys x \<noteq> None"
      using Cons.IH [of 0] Cons.prems by (simp split: option.splits)
    then show ?thesis using 0 by (auto split: option.splits)
  next
    case (Suc k)
    show ?thesis
    proof (cases "y = x")
      case True
      with Cons.prems have "x \<notin> set (drop k ys)"
        by (auto dest: in_set_dropD)
      with True Suc show ?thesis by simp
    next
      case False
      with Cons.IH [of k] Cons.prems Suc show ?thesis
        by (simp split: option.splits)
    qed
  qed
qed

lemma distinct_levelHierarchy: "distinct levelHierarchy"
  by (simp add: levelHierarchy_def lit_def)

lemma ALL_not_in_hierarchy: "indexOf levelHierarchy (lit ''ALL'') = None"
  by (simp add: levelHierarchy_def lit_def)

lemma floor_callback:
  "(case getLogLevel r of
      Inl e \<Rightarrow> Inl e
    | Inr logLevel \<Rightarrow> Inr (logLevel \<in> set (drop i levelHierarchy))) = Inr True
   \<longleftrightarrow> passesFloor i r"
  by (simp add: passesFloor_def indexOf_drop [OF distinct_levelHierarchy] split: sum.splits)

lemma callback_throws:
  "(case getLogLevel r of Inl e \<Rightarrow> Inl e | Inr logLevel \<Rightarrow> Inr (f logLevel)) \<noteq> Inl TypeError
   \<longleftrightarrow> getLogLevel r \<noteq> Inl TypeError"
  by (cases "getLogLevel r") auto

lemma exact_callback:
  "(case getLogLevel r of
      Inl e \<Rightarrow> Inl e
    | Inr logLevel \<Rightarrow> Inr (logLevel = level)) = Inr True
   \<longleftrightarrow> getLogLevel r = Inr level"
  by (simp split: sum.splits)

lemma byLevel_floor:
  assumes "indexOf levelHierarchy level = Some i"
  shows "byLevel level rs =
     (if \<forall>r\<in>set rs. getLogLevel r \<noteq> Inl TypeError then Inr (filter (passesFloor i) rs)
      else Inl TypeError)"
proof -
  from assms have "level \<noteq> lit ''ALL''"
    using ALL_not_in_hierarchy by auto
  with assms show ?thesis
    by (simp add: byLevel_def Let_def filterE_filter callback_throws floor_callback)
qed

lemma byLevel_exact:
  assumes "level \<noteq> lit ''ALL''" and "indexOf levelHierarchy level = None"
  shows "byLevel level rs =
     (if \<forall>r\<in>set rs. getLogLevel r \<noteq> Inl TypeError
      then Inr (filter (\<lambda>r. getLogLevel r = Inr level) rs)
      else Inl TypeError)"
  using assms by (simp add: byLevel_def filterE_filter callback_throws exact_callback)

lemma byLevel_ALL: "byLevel (lit ''ALL'') rs = Inr rs"
  by (simp add: byLevel_def)


lemma startsWith_prefix: "startsWith s t \<longleftrightarrow> prefix t s"
  unfolding startsWith_def
  by (metis append_eq_conv_conj prefix_def)

lemma stringIncludes_sublist: "stringIncludes s t \<longleftrightarrow> sublist t s"
proof (induction s)
  case Nil
  show ?case by simp
next
  case (Cons c cs)
  show ?case
  proof (cases t)
    case Nil
    then show ?thesis by (simp add: startsWith_def)
  next
    case (Cons d ds)
    then show ?thesis
      using Cons.IH by (simp add: startsWith_prefix sublist_Cons_right)
  qed
qed

lemma byLevel_subseq: "byLevel level rs = Inr out \<Longrightarrow> subseq out rs"
proof (cases "level = lit ''ALL''")
  case True
  assume "byLevel level rs = Inr out"
  with True show ?thesis by (simp add: byLevel_ALL)
next
  case False
  assume b: "byLevel level rs = Inr out"
  show ?thesis
  proof (cases "indexOf levelHierarchy level")
    case None
    from b byLevel_exact [OF False None, of rs] show ?thesis
      by (auto split: if_splits)
  next
    case (Some i)
    from b byLevel_floor [OF Some, of rs] show ?thesis
      by (auto split: if_splits)
  qed
qed

lemma byTerm_subseq: "subseq (byTerm term rs) rs"
  by (simp add: byTerm_def)

lemma filterLogs_subseq:
  assumes "filterLogs st term level = (None, st')"
  shows "subseq (filteredLogs st') (logs st)"
proof -
  from assms obtain out where o: "byLevel level (logs st) = Inr out"
    and s: "st' = st\<lparr>filteredLogs := byTerm term out\<rparr>"
    by (auto simp: filterLogs_def split: sum.splits)
  have "subseq (byTerm term out) out" by (rule byTerm_subseq)
  also have "subseq out (logs st)" using o by (rule byLevel_subseq)
  finally show ?thesis by (simp add: s)
qed

lemma filterLogs_previous_result:
  assumes "filterLogs st term level = (None, st')"
  shows "filterLogs (st\<lparr>filteredLogs := old\<rparr>) term level = (None, st')"
  using assms by (auto simp: filterLogs_def split: sum.splits)

lemma filterLogs_again:
  "filterLogs (snd (filterLogs st term level)) term level = filterLogs st term level"
  by (auto simp: filterLogs_def split: sum.splits)

lemma filterLogs_keeps_logs: "logs (snd (filterLogs st term level)) = logs st"
  by (auto simp: filterLogs_def split: sum.splits)

text \<open>The records and the state of the examples.\<close>

lemmas filter_simps =
  passesFloor_def getLogLevel_def levelField_def orElse_def get_def lit_def toUpperCase_def
  Let_def levelHierarchy_def





text \<open>
  C6.  With an empty search term the second block of \<open>filterLogs\<close> keeps every record;
  otherwise it keeps exactly the records whose serialization, in lower case, has the
  search term, in lower case, as a contiguous part.  With the level ALL this is all that
  \<open>filterLogs\<close> does.  The record with the nested text Boom matches the term boom.
\<close>

theorem byTerm_substring_search:
  "byTerm [] rs = rs
   \<and> (term \<noteq> [] \<longrightarrow>
        byTerm term rs =
          filter (\<lambda>r. sublist (toLowerCase term) (toLowerCase (stringify (JObj r)))) rs)
   \<and> filterLogs st term (lit ''ALL'') = (None, st\<lparr>filteredLogs := byTerm term (logs st)\<rparr>)
   \<and> byTerm (lit ''boom'') [[(lit ''data'', JObj [(lit ''x'', JStr (lit ''Boom''))])]] =
       [[(lit ''data'', JObj [(lit ''x'', JStr (lit ''Boom''))])]]"
proof (intro conjI impI)
  show "byTerm [] rs = rs"
    by (simp add: byTerm_def)
  show "byTerm term rs =
      filter (\<lambda>r. sublist (toLowerCase term) (toLowerCase (stringify (JObj r)))) rs"
    if "term \<noteq> []"
    using that by (simp add: byTerm_def stringIncludes_sublist)
  show "filterLogs st term (lit ''ALL'') = (None, st\<lparr>filteredLogs := byTerm term (logs st)\<rparr>)"
    by (simp add: filterLogs_def byLevel_ALL)
  show "byTerm (lit ''boom'') [[(lit ''data'', JObj [(lit ''x'', JStr (lit ''Boom''))])]] =
       [[(lit ''data'', JObj [(lit ''x'', JStr (lit ''Boom''))])]]"
    by (simp add: byTerm_def lit_def toLowerCase_def quoteJSONString_def escapeUnit_def
        isLeadingSurrogate_def isTrailingSurrogate_def startsWith_def)
qed

theorem byTerm_substring_search_witness:
  "lit ''TRUE,\"n'' \<noteq> []
   \<and> stringify (JObj [(lit ''Ok'', JBool True), (lit ''n'', JNum (- 42))]) =
       lit ''{\"Ok\":true,\"n\":-42}''
   \<and> byTerm (lit ''TRUE,\"n'')
       [[(lit ''Ok'', JBool True), (lit ''n'', JNum (- 42))],
        [(lit ''n'', JNum (- 42)), (lit ''Ok'', JBool True)]] =
     [[(lit ''Ok'', JBool True), (lit ''n'', JNum (- 42))]]"
proof -
  have t: "lit ''TRUE,\"n'' \<noteq> []"
    by (simp add: lit_def)
  have s: "stringify (JObj [(lit ''Ok'', JBool True), (lit ''n'', JNum (- 42))]) =
       lit ''{\"Ok\":true,\"n\":-42}''"
    by (simp add: lit_def quoteJSONString_def escapeUnit_def isLeadingSurrogate_def
        isTrailingSurrogate_def numberToString_def)
  show ?thesis
    using t s byTerm_substring_search [of
        "[[(lit ''Ok'', JBool True), (lit ''n'', JNum (- 42))],
          [(lit ''n'', JNum (- 42)), (lit ''Ok'', JBool True)]]" "lit ''TRUE,\"n''"]
    by (simp add: lit_def toLowerCase_def quoteJSONString_def escapeUnit_def
        isLeadingSurrogate_def isTrailingSurrogate_def numberToString_def
        sublist_code prefix_code)
qed

text \<open>
  C8.  \<open>filterLogs\<close> computes its result from all the records: what it stores is a
  subsequence of \<open>logs\<close> (records of \<open>logs\<close>, each position at most once, in their
  order), and it is the same whatever the result stored before.  The same holds for the
  two handlers that call it.
\<close>

theorem filterLogs_subsequence_of_logs:
  "(filterLogs st term level = (None, st') \<longrightarrow>
      subseq (filteredLogs st') (logs st)
      \<and> filterLogs (st\<lparr>filteredLogs := old\<rparr>) term level = (None, st'))
   \<and> (handleSearch st term = (None, st') \<longrightarrow>
        subseq (filteredLogs st') (logs st)
        \<and> handleSearch (st\<lparr>filteredLogs := old\<rparr>) term = (None, st'))
   \<and> (handleLevelFilter st level = (None, st') \<longrightarrow>
        subseq (filteredLogs st') (logs st)
        \<and> handleLevelFilter (st\<lparr>filteredLogs := old\<rparr>) level = (None, st'))"
proof (intro conjI impI)
  assume "filterLogs st term level = (None, st')"
  then show "subseq (filteredLogs st') (logs st)"
    and "filterLogs (st\<lparr>filteredLogs := old\<rparr>) term level = (None, st')"
    by (rule filterLogs_subseq, rule filterLogs_previous_result)
next
  assume h: "handleSearch st term = (None, st')"
  then show "subseq (filteredLogs st') (logs st)"
    using filterLogs_subseq [of "st\<lparr>searchTerm := term\<rparr>" "term" "selectedLevel st" st']
    by (simp add: handleSearch_def)
  have eq: "st\<lparr>filteredLogs := old, searchTerm := term\<rparr> =
      st\<lparr>searchTerm := term, filteredLogs := old\<rparr>"
    by (cases st) simp
  have "filterLogs (st\<lparr>searchTerm := term, filteredLogs := old\<rparr>) term (selectedLevel st) =
      (None, st')"
    using h filterLogs_previous_result
      [of "st\<lparr>searchTerm := term\<rparr>" "term" "selectedLevel st" st' old]
    by (simp add: handleSearch_def)
  then show "handleSearch (st\<lparr>filteredLogs := old\<rparr>) term = (None, st')"
    unfolding handleSearch_def eq by simp
next
  assume h: "handleLevelFilter st level = (None, st')"
  then show "subseq (filteredLogs st') (logs st)"
    using filterLogs_subseq [of "st\<lparr>selectedLevel := level\<rparr>" "searchTerm st" level st']
    by (simp add: handleLevelFilter_def)
  have eq: "st\<lparr>filteredLogs := old, selectedLevel := level\<rparr> =
      st\<lparr>selectedLevel := level, filteredLogs := old\<rparr>"
    by (cases st) simp
  have "filterLogs (st\<lparr>selectedLevel := level, filteredLogs := old\<rparr>) (searchTerm st) level =
      (None, st')"
    using h filterLogs_previous_result
      [of "st\<lparr>selectedLevel := level\<rparr>" "searchTerm st" level st' old]
    by (simp add: handleLevelFilter_def)
  then show "handleLevelFilter (st\<lparr>filteredLogs := old\<rparr>) level = (None, st')"
    unfolding handleLevelFilter_def eq by simp
qed

theorem filterLogs_subsequence_of_logs_witness:
  "handleSearch
     \<lparr>logs = [[(lit ''level'', JStr (lit ''info'')), (lit ''msg'', JStr (lit ''Boom''))],
              [(lit ''level'', JStr (lit ''error'')), (lit ''msg'', JStr (lit ''disk''))],
              [(lit ''level'', JStr (lit ''fatal'')), (lit ''msg'', JStr (lit ''boom town''))]],
      filteredLogs = [[(lit ''level'', JStr (lit ''error'')), (lit ''msg'', JStr (lit ''disk''))]],
      searchTerm = lit ''disk'', selectedLevel = lit ''WARN''\<rparr>
     (lit ''BOOM'') =
   (None,
     \<lparr>logs = [[(lit ''level'', JStr (lit ''info'')), (lit ''msg'', JStr (lit ''Boom''))],
              [(lit ''level'', JStr (lit ''error'')), (lit ''msg'', JStr (lit ''disk''))],
              [(lit ''level'', JStr (lit ''fatal'')), (lit ''msg'', JStr (lit ''boom town''))]],
      filteredLogs = [[(lit ''level'', JStr (lit ''fatal'')), (lit ''msg'', JStr (lit ''boom town''))]],
      searchTerm = lit ''BOOM'', selectedLevel = lit ''WARN''\<rparr>)
   \<and> subseq
       [[(lit ''level'', JStr (lit ''fatal'')), (lit ''msg'', JStr (lit ''boom town''))]]
       [[(lit ''level'', JStr (lit ''info'')), (lit ''msg'', JStr (lit ''Boom''))],
        [(lit ''level'', JStr (lit ''error'')), (lit ''msg'', JStr (lit ''disk''))],
        [(lit ''level'', JStr (lit ''fatal'')), (lit ''msg'', JStr (lit ''boom town''))]]"
proof -
  let ?rs = "[[(lit ''level'', JStr (lit ''info'')), (lit ''msg'', JStr (lit ''Boom''))],
              [(lit ''level'', JStr (lit ''error'')), (lit ''msg'', JStr (lit ''disk''))],
              [(lit ''level'', JStr (lit ''fatal'')), (lit ''msg'', JStr (lit ''boom town''))]]"
  let ?st = "\<lparr>logs = ?rs,
      filteredLogs = [[(lit ''level'', JStr (lit ''error'')), (lit ''msg'', JStr (lit ''disk''))]],
      searchTerm = lit ''disk'', selectedLevel = lit ''WARN''\<rparr>"
  let ?st' = "\<lparr>logs = ?rs,
      filteredLogs = [[(lit ''level'', JStr (lit ''fatal'')), (lit ''msg'', JStr (lit ''boom town''))]],
      searchTerm = lit ''BOOM'', selectedLevel = lit ''WARN''\<rparr>"
  have h: "handleSearch ?st (lit ''BOOM'') = (None, ?st')"
    by (simp add: handleSearch_def filterLogs_def byLevel_def byTerm_def filter_simps
        toLowerCase_def quoteJSONString_def escapeUnit_def isLeadingSurrogate_def
        isTrailingSurrogate_def startsWith_def)
  have "subseq (filteredLogs ?st') (logs ?st)"
    using filterLogs_subsequence_of_logs [of ?st "lit ''BOOM''" _ ?st'] h by blast
  then show ?thesis using h by (simp only: state.simps simp_thms)
qed

text \<open>
  C9.  A second call of \<open>filterLogs\<close> with the same arguments, on the state the first
  call leaves, gives the result of the first call again, and no call changes \<open>logs\<close>;
  the same holds for the two handlers.
\<close>

theorem filterLogs_repeatable:
  "filterLogs (snd (filterLogs st term level)) term level = filterLogs st term level
   \<and> logs (snd (filterLogs st term level)) = logs st
   \<and> handleSearch (snd (handleSearch st term)) term = handleSearch st term
   \<and> logs (snd (handleSearch st term)) = logs st
   \<and> handleLevelFilter (snd (handleLevelFilter st level)) level = handleLevelFilter st level
   \<and> logs (snd (handleLevelFilter st level)) = logs st"
proof (intro conjI)
  show "filterLogs (snd (filterLogs st term level)) term level = filterLogs st term level"
    by (rule filterLogs_again)
  show "logs (snd (filterLogs st term level)) = logs st"
    by (rule filterLogs_keeps_logs)
  show "handleSearch (snd (handleSearch st term)) term = handleSearch st term"
    by (auto simp: handleSearch_def filterLogs_def split: sum.splits)
  show "logs (snd (handleSearch st term)) = logs st"
    by (simp add: handleSearch_def filterLogs_keeps_logs)
  show "handleLevelFilter (snd (handleLevelFilter st level)) level = handleLevelFilter st level"
    by (auto simp: handleLevelFilter_def filterLogs_def split: sum.splits)
  show "logs (snd (handleLevelFilter st level)) = logs st"
    by (simp add: handleLevelFilter_def filterLogs_keeps_logs)
qed

theorem filterLogs_repeatable_witness:
  "filterLogs
     (snd (filterLogs
        \<lparr>logs = [[(lit ''level'', JStr (lit ''info''))], [(lit ''level'', JStr (lit ''error''))]],
         filteredLogs = [], searchTerm = [], selectedLevel = lit ''ALL''\<rparr> [] (lit ''WARN'')))
     [] (lit ''WARN'') =
   (None,
     \<lparr>logs = [[(lit ''level'', JStr (lit ''info''))], [(lit ''level'', JStr (lit ''error''))]],
      filteredLogs = [[(lit ''level'', JStr (lit ''error''))]], searchTerm = [],
      selectedLevel = lit ''ALL''\<rparr>)"
proof -
  have e: "filterLogs
        \<lparr>logs = [[(lit ''level'', JStr (lit ''info''))], [(lit ''level'', JStr (lit ''error''))]],
         filteredLogs = [], searchTerm = [], selectedLevel = lit ''ALL''\<rparr> [] (lit ''WARN'') =
    (None,
     \<lparr>logs = [[(lit ''level'', JStr (lit ''info''))], [(lit ''level'', JStr (lit ''error''))]],
      filteredLogs = [[(lit ''level'', JStr (lit ''error''))]], searchTerm = [],
      selectedLevel = lit ''ALL''\<rparr>)"
    by (simp add: filterLogs_def byLevel_def byTerm_def filter_simps)
  have "filterLogs
     (snd (filterLogs
        \<lparr>logs = [[(lit ''level'', JStr (lit ''info''))], [(lit ''level'', JStr (lit ''error''))]],
         filteredLogs = [], searchTerm = [], selectedLevel = lit ''ALL''\<rparr> [] (lit ''WARN'')))
     [] (lit ''WARN'') =
    filterLogs
        \<lparr>logs = [[(lit ''level'', JStr (lit ''info''))], [(lit ''level'', JStr (lit ''error''))]],
         filteredLogs = [], searchTerm = [], selectedLevel = lit ''ALL''\<rparr> [] (lit ''WARN'')"
    by (rule filterLogs_repeatable [THEN conjunct1])
  also note e
  finally show ?thesis .
qed

end
